theory Spec2Isabelle
  imports
    Main
    "HOL-Library.Sublist"
    "HOL-Library.Multiset"
    "HOL-Library.Char_ord"
    "HOL-Library.List_Lexorder"
begin

section \<open>kube-ingress-index: an index of the Ingress objects of watched namespaces\<close>

text \<open>
  The program (\<^verbatim>\<open>src/main.go\<close>) watches Kubernetes namespaces, turns every Ingress
  object into a small record and keeps the records in an accumulator that is rendered
  as an index page. This theory embeds the accumulator (\<^verbatim>\<open>upsert\<close>, \<^verbatim>\<open>delete\<close>), the
  normalizer (\<^verbatim>\<open>buildFQDN\<close>, \<^verbatim>\<open>buildIngress\<close>), the event handlers, the sort of the
  published list in \<^verbatim>\<open>listenHTTP\<close> and the validation at the start of \<^verbatim>\<open>main\<close>.
\<close>

subsection \<open>The record type and the accumulator\<close>

text \<open>
  \<^verbatim>\<open>type ingress struct { Name, Namespace string; FQDN string }\<close>
\<close>

record ingress =
  Name :: string
  Namespace :: string
  FQDN :: string

text \<open>
  \<^verbatim>\<open>type ingresses struct { active []ingress; mu sync.Mutex }\<close>.
  Both methods take the mutex on entry and release it on return, so each call runs
  alone; a call is modelled as a function from the state before it to the returned
  slice and the state after it.
\<close>

record ingresses =
  active :: "ingress list"

text \<open>
  The search loop of \<^verbatim>\<open>upsert\<close>:
  \<^verbatim>\<open>for k := range i.active { if i.active[k].Name == ing.Name { found = true; break } }\<close>
\<close>

fun upsert_found :: "ingress list \<Rightarrow> ingress \<Rightarrow> bool" where
  "upsert_found [] ing = False"
| "upsert_found (a # rest) ing = (if Name a = Name ing then True else upsert_found rest ing)"

text \<open>
  \<^verbatim>\<open>if !found { i.active = append(i.active, ing) }\<close>, then a copy of \<^verbatim>\<open>i.active\<close>
  is returned.
\<close>

definition upsert :: "ingresses \<Rightarrow> ingress \<Rightarrow> ingress list \<times> ingresses" where
  "upsert i ing =
     (let found = upsert_found (active i) ing;
          i' = (if \<not> found then i\<lparr>active := active i @ [ing]\<rparr> else i);
          out = active i'
      in (out, i'))"

text \<open>
  The filter loop of \<^verbatim>\<open>delete\<close>, with the slice \<^verbatim>\<open>next\<close> as accumulator:
  \<^verbatim>\<open>for k := range i.active { if i.active[k].Name == ing.Name { continue }; next = append(next, i.active[k]) }\<close>
\<close>

fun delete_loop :: "ingress list \<Rightarrow> ingress \<Rightarrow> ingress list \<Rightarrow> ingress list" where
  "delete_loop [] ing nxt = nxt"
| "delete_loop (a # rest) ing nxt =
     (if Name a = Name ing then delete_loop rest ing nxt
      else delete_loop rest ing (nxt @ [a]))"

definition delete :: "ingresses \<Rightarrow> ingress \<Rightarrow> ingress list \<times> ingresses" where
  "delete i ing =
     (let nxt = delete_loop (active i) ing [];
          i' = i\<lparr>active := nxt\<rparr>;
          out = active i'
      in (out, i'))"

text \<open>
  The calls that the event handlers of \<^verbatim>\<open>watchIngresses\<close> make on the accumulator
  (\<^verbatim>\<open>AddFunc\<close> and \<^verbatim>\<open>UpdateFunc\<close> call \<^verbatim>\<open>upsert\<close>, \<^verbatim>\<open>DeleteFunc\<close> calls \<^verbatim>\<open>delete\<close>),
  and the state after a sequence of them. \<^verbatim>\<open>accum := &ingresses{}\<close> is the empty
  accumulator.
\<close>

datatype call = Upsert ingress | Delete ingress

fun apply_call :: "ingresses \<Rightarrow> call \<Rightarrow> ingresses" where
  "apply_call i (Upsert ing) = snd (upsert i ing)"
| "apply_call i (Delete ing) = snd (delete i ing)"

fun apply_calls :: "ingresses \<Rightarrow> call list \<Rightarrow> ingresses" where
  "apply_calls i [] = i"
| "apply_calls i (c # cs) = apply_calls (apply_call i c) cs"

definition accum_empty :: ingresses where
  "accum_empty = \<lparr>active = []\<rparr>"

fun upserted_nonempty :: "call \<Rightarrow> bool" where
  "upserted_nonempty (Upsert ing) = (FQDN ing \<noteq> [])"
| "upserted_nonempty (Delete ing) = True"

subsection \<open>The Ingress object and the URL library\<close>

text \<open>
  The fields of \<^verbatim>\<open>k8sNetworking.Ingress\<close> that the program reads: the namespace and
  the name of the object (\<^verbatim>\<open>ing.Namespace\<close>, \<^verbatim>\<open>ing.Name\<close>), the hosts listed in
  \<^verbatim>\<open>ing.Spec.TLS[i].Hosts\<close> and the host of every rule, \<^verbatim>\<open>ing.Spec.Rules[i].Host\<close>.
\<close>

record IngressTLS =
  Hosts :: "string list"

record IngressRule =
  Host :: string

record IngressSpec =
  TLS :: "IngressTLS list"
  Rules :: "IngressRule list"

record k8s_Ingress =
  k8s_Namespace :: string
  k8s_Name :: string
  Spec :: IngressSpec

text \<open>
  \<^verbatim>\<open>net/url\<close> belongs to Go's standard library, not to this program. Of a parsed
  \<^verbatim>\<open>*url.URL\<close> the program reads the field \<^verbatim>\<open>Host\<close> and the result of the method
  \<^verbatim>\<open>String()\<close>, so a URL is the pair of the two. \<^verbatim>\<open>url.Parse\<close> is a parameter
  \<open>url_Parse\<close> of the normalizer: \<open>None\<close> stands for the nil pointer that
  \<^verbatim>\<open>u, _ = url.Parse(...)\<close> leaves in \<^verbatim>\<open>u\<close> when parsing fails.
\<close>

record URL =
  URL_Host :: string
  URL_String :: string

text \<open>
  An instance of \<open>url_Parse\<close> for concrete evaluation. It covers the URLs
  \<^verbatim>\<open>http://host\<close> and \<^verbatim>\<open>https://host\<close> whose host is made of letters, digits, dots
  and hyphens, with an optional colon and decimal port; on these \<^verbatim>\<open>url.Parse\<close>
  succeeds, \<^verbatim>\<open>Host\<close> is the text after the two slashes and \<^verbatim>\<open>String()\<close> gives the
  URL back (only the scheme and a colon when the host is empty). Every other string is
  outside this instance, which answers \<open>None\<close> there.
\<close>

definition plain_host_char :: "char \<Rightarrow> bool" where
  "plain_host_char c =
     (c \<in> set ''abcdefghijklmnopqrstuvwxyzABCDEFGHIJKLMNOPQRSTUVWXYZ0123456789.-'')"

definition plain_port_char :: "char \<Rightarrow> bool" where
  "plain_port_char c = (c \<in> set ''0123456789'')"

definition plain_host :: "string \<Rightarrow> bool" where
  "plain_host h =
     (let name = takeWhile (\<lambda>c. c \<noteq> CHR '':'') h;
          port = dropWhile (\<lambda>c. c \<noteq> CHR '':'') h
      in list_all plain_host_char name \<and> list_all plain_port_char (tl port))"

definition plain_URL :: "string \<Rightarrow> string \<Rightarrow> URL option" where
  "plain_URL scheme h =
     (if plain_host h
      then Some \<lparr>URL_Host = h,
                 URL_String = (if h = [] then scheme @ '':'' else scheme @ ''://'' @ h)\<rparr>
      else None)"

definition url_Parse_plain :: "string \<Rightarrow> URL option" where
  "url_Parse_plain s =
     (if prefix ''https://'' s then plain_URL ''https'' (drop 8 s)
      else if prefix ''http://'' s then plain_URL ''http'' (drop 7 s)
      else None)"

subsection \<open>The normalizer: \<^verbatim>\<open>buildFQDN\<close> and \<^verbatim>\<open>buildIngress\<close>\<close>

text \<open>
  The first loop of \<^verbatim>\<open>buildFQDN\<close> fills the map \<^verbatim>\<open>tlsHosts\<close>:
  \<^verbatim>\<open>for i := range spec.TLS { for j := range spec.TLS[i].Hosts { tlsHosts[spec.TLS[i].Hosts[j]] = true } }\<close>.
  A \<^verbatim>\<open>map[string]bool\<close> reads \<^verbatim>\<open>false\<close> at a key it does not hold, so the map is a
  function into \<open>bool\<close> and the fresh map is constantly \<open>False\<close>.
\<close>

fun tlsHosts_inner :: "string list \<Rightarrow> (string \<Rightarrow> bool) \<Rightarrow> (string \<Rightarrow> bool)" where
  "tlsHosts_inner [] tlsHosts = tlsHosts"
| "tlsHosts_inner (h # hs) tlsHosts = tlsHosts_inner hs (tlsHosts(h := True))"

fun tlsHosts_outer :: "IngressTLS list \<Rightarrow> (string \<Rightarrow> bool) \<Rightarrow> (string \<Rightarrow> bool)" where
  "tlsHosts_outer [] tlsHosts = tlsHosts"
| "tlsHosts_outer (t # ts) tlsHosts = tlsHosts_outer ts (tlsHosts_inner (Hosts t) tlsHosts)"

text \<open>
  The body of the second loop, for one rule: the URL that is parsed,
  \<^verbatim>\<open>if *flagForceTLS || tlsHosts[host] { u, _ = url.Parse(fmt.Sprintf("https://%s", host)) } else { u, _ = url.Parse(fmt.Sprintf("http://%s", host)) }\<close>,
  and the test that makes the loop \<^verbatim>\<open>continue\<close>,
  \<^verbatim>\<open>u == nil || u.Host == "" || strings.HasPrefix(u.Host, "localhost:")\<close>.
  The flag \<^verbatim>\<open>*flagForceTLS\<close> is the parameter \<open>flagForceTLS\<close>.
\<close>

definition rule_URL :: "(string \<Rightarrow> URL option) \<Rightarrow> bool \<Rightarrow> (string \<Rightarrow> bool) \<Rightarrow> string \<Rightarrow> URL option" where
  "rule_URL url_Parse flagForceTLS tlsHosts host =
     (if flagForceTLS \<or> tlsHosts host then url_Parse (''https://'' @ host)
      else url_Parse (''http://'' @ host))"

definition ignored :: "URL option \<Rightarrow> bool" where
  "ignored u =
     (case u of
        None \<Rightarrow> True
      | Some v \<Rightarrow> URL_Host v = [] \<or> prefix ''localhost:'' (URL_Host v))"

text \<open>
  The second loop: \<^verbatim>\<open>for i := range spec.Rules { ...; if ... { continue }; return u.String() }; return ""\<close>.
\<close>

fun buildFQDN_rules ::
  "(string \<Rightarrow> URL option) \<Rightarrow> bool \<Rightarrow> (string \<Rightarrow> bool) \<Rightarrow> IngressRule list \<Rightarrow> string" where
  "buildFQDN_rules url_Parse flagForceTLS tlsHosts [] = []"
| "buildFQDN_rules url_Parse flagForceTLS tlsHosts (r # rs) =
     (let host = Host r;
          u = rule_URL url_Parse flagForceTLS tlsHosts host
      in if ignored u then buildFQDN_rules url_Parse flagForceTLS tlsHosts rs
         else URL_String (the u))"

definition buildFQDN :: "(string \<Rightarrow> URL option) \<Rightarrow> bool \<Rightarrow> k8s_Ingress \<Rightarrow> string" where
  "buildFQDN url_Parse flagForceTLS ing =
     (let spec = Spec ing;
          tlsHosts = tlsHosts_outer (TLS spec) (\<lambda>_. False)
      in buildFQDN_rules url_Parse flagForceTLS tlsHosts (Rules spec))"

text \<open>
  \<^verbatim>\<open>buildIngress\<close> returns \<^verbatim>\<open>(nil, errors.New("empty FQDN"))\<close> or the record and a
  nil error.
\<close>

datatype error = EmptyFQDN

definition buildIngress :: "(string \<Rightarrow> URL option) \<Rightarrow> bool \<Rightarrow> k8s_Ingress \<Rightarrow> error + ingress" where
  "buildIngress url_Parse flagForceTLS ing =
     (let fqdn = buildFQDN url_Parse flagForceTLS ing
      in if fqdn = [] then Inl EmptyFQDN
         else Inr \<lparr>Name = k8s_Name ing, Namespace = k8s_Namespace ing, FQDN = fqdn\<rparr>)"

subsection \<open>The event handlers of \<^verbatim>\<open>watchIngresses\<close>\<close>

text \<open>
  Each handler normalizes the object it is given and, when \<^verbatim>\<open>err == nil\<close>, calls the
  accumulator and sends the returned slice on \<^verbatim>\<open>respChan\<close>; otherwise it does nothing.
  A handler is a function from the accumulator before the event to the slice that is
  sent (\<open>None\<close> when nothing is sent) and the accumulator after it. \<^verbatim>\<open>UpdateFunc\<close>
  ignores the old object and works on the current one.
\<close>

definition AddFunc ::
  "(string \<Rightarrow> URL option) \<Rightarrow> bool \<Rightarrow> ingresses \<Rightarrow> k8s_Ingress \<Rightarrow> ingress list option \<times> ingresses" where
  "AddFunc url_Parse flagForceTLS accum obj =
     (case buildIngress url_Parse flagForceTLS obj of
        Inl err \<Rightarrow> (None, accum)
      | Inr ing \<Rightarrow> (let (current, accum') = upsert accum ing in (Some current, accum')))"

definition DeleteFunc ::
  "(string \<Rightarrow> URL option) \<Rightarrow> bool \<Rightarrow> ingresses \<Rightarrow> k8s_Ingress \<Rightarrow> ingress list option \<times> ingresses" where
  "DeleteFunc url_Parse flagForceTLS accum obj =
     (case buildIngress url_Parse flagForceTLS obj of
        Inl err \<Rightarrow> (None, accum)
      | Inr ing \<Rightarrow> (let (current, accum') = delete accum ing in (Some current, accum')))"

definition UpdateFunc ::
  "(string \<Rightarrow> URL option) \<Rightarrow> bool \<Rightarrow> ingresses \<Rightarrow> k8s_Ingress \<Rightarrow> k8s_Ingress
     \<Rightarrow> ingress list option \<times> ingresses" where
  "UpdateFunc url_Parse flagForceTLS accum old cur =
     (case buildIngress url_Parse flagForceTLS cur of
        Inl err \<Rightarrow> (None, accum)
      | Inr ing \<Rightarrow> (let (current, accum') = upsert accum ing in (Some current, accum')))"

subsection \<open>The sort of the published list\<close>

text \<open>
  \<^verbatim>\<open>func (ing ingress) String() string { return fmt.Sprintf("Ingress: namespace=%s, name=%s, fqdn=%s", ing.Namespace, ing.Name, ing.FQDN) }\<close>
\<close>

definition ingress_String :: "ingress \<Rightarrow> string" where
  "ingress_String ing =
     ''Ingress: namespace='' @ Namespace ing @ '', name='' @ Name ing @ '', fqdn='' @ FQDN ing"

text \<open>
  \<^verbatim>\<open>strings.ToLower\<close> (Go's standard library) first scans the bytes of the string. When
  every byte is ASCII (below \<^verbatim>\<open>utf8.RuneSelf\<close>, that is \<open>0x80\<close>: the top bit is not
  set), the letters \<open>A\<close> to \<open>Z\<close> become \<open>a\<close> to \<open>z\<close> and every other byte stays. When
  some byte is not ASCII the result is \<^verbatim>\<open>Map(unicode.ToLower, s)\<close>, the mapping of the
  runes of the string by Unicode case; that mapping is the parameter
  \<open>unicode_ToLower\<close>.
\<close>

definition ToLower_char :: "char \<Rightarrow> char" where
  "ToLower_char c =
     (case map_of (zip ''ABCDEFGHIJKLMNOPQRSTUVWXYZ'' ''abcdefghijklmnopqrstuvwxyz'') c of
        None \<Rightarrow> c
      | Some l \<Rightarrow> l)"

definition isASCII :: "string \<Rightarrow> bool" where
  "isASCII s = list_all (\<lambda>c. \<not> digit7 c) s"

definition strings_ToLower :: "(string \<Rightarrow> string) \<Rightarrow> string \<Rightarrow> string" where
  "strings_ToLower unicode_ToLower s =
     (if isASCII s then map ToLower_char s else unicode_ToLower s)"

text \<open>
  The comparison that \<^verbatim>\<open>sortIngresses\<close> hands to \<^verbatim>\<open>sort.Slice\<close>:
  \<^verbatim>\<open>strings.ToLower(ing[i].String()) < strings.ToLower(ing[j].String())\<close>.
  Go compares strings byte by byte, which is the lexicographic order on \<open>string\<close>.
\<close>

definition sortIngresses_less :: "(string \<Rightarrow> string) \<Rightarrow> ingress \<Rightarrow> ingress \<Rightarrow> bool" where
  "sortIngresses_less unicode_ToLower a b =
     (strings_ToLower unicode_ToLower (ingress_String a)
        < strings_ToLower unicode_ToLower (ingress_String b))"

text \<open>
  \<^verbatim>\<open>sort.Slice\<close> (Go's standard library) sorts a slice in place by a comparison and
  promises no order among elements that compare equal. It is embedded as insertion
  sort; the statements below hold for every order of such elements.
\<close>

fun sort_Slice_insert :: "('a \<Rightarrow> 'a \<Rightarrow> bool) \<Rightarrow> 'a \<Rightarrow> 'a list \<Rightarrow> 'a list" where
  "sort_Slice_insert lessFn x [] = [x]"
| "sort_Slice_insert lessFn x (y # ys) =
     (if lessFn y x then y # sort_Slice_insert lessFn x ys else x # y # ys)"

fun sort_Slice :: "('a \<Rightarrow> 'a \<Rightarrow> bool) \<Rightarrow> 'a list \<Rightarrow> 'a list" where
  "sort_Slice lessFn [] = []"
| "sort_Slice lessFn (x # xs) = sort_Slice_insert lessFn x (sort_Slice lessFn xs)"

text \<open>
  A Go slice refers to a backing array, and \<^verbatim>\<open>sort.Slice\<close> writes into that array.
  The store \<open>heap\<close> gives the contents of every slice by its address;
  \<^verbatim>\<open>sortIngresses(ing)\<close> replaces the contents at the address of \<open>ing\<close>.
\<close>

definition sortIngresses ::
  "(string \<Rightarrow> string) \<Rightarrow> (nat \<Rightarrow> ingress list) \<Rightarrow> nat \<Rightarrow> (nat \<Rightarrow> ingress list)" where
  "sortIngresses unicode_ToLower h ing =
     h(ing := sort_Slice (sortIngresses_less unicode_ToLower) (h ing))"

text \<open>
  The state of \<^verbatim>\<open>listenHTTP\<close>: the store and the variable \<^verbatim>\<open>curIngresses\<close>, which is
  the nil slice (\<open>None\<close>) until a snapshot arrives. The branch
  \<^verbatim>\<open>case cur := <-respChan: curIngresses = cur; sortIngresses(curIngresses)\<close>
  of the goroutine is two statements, \<open>receive_assign\<close> and \<open>receive_sort\<close>. The
  request handler runs on other goroutines and reads \<^verbatim>\<open>curIngresses\<close> without a lock,
  so it can run before, between and after the two: \<open>handler\<close> gives the list that it
  hands to the template in a state, \<^verbatim>\<open>Ingresses: curIngresses\<close>, which the template
  renders in this order. The steps are whole statements; a request that is served
  while \<^verbatim>\<open>sort.Slice\<close> is swapping elements is not a state of this embedding.
  \<open>receive\<close> is the branch run to its end.
\<close>

record listen_state =
  heap :: "nat \<Rightarrow> ingress list"
  curIngresses :: "nat option"

definition receive_assign :: "listen_state \<Rightarrow> nat \<Rightarrow> listen_state" where
  "receive_assign st cur = st\<lparr>curIngresses := Some cur\<rparr>"

definition receive_sort :: "(string \<Rightarrow> string) \<Rightarrow> listen_state \<Rightarrow> listen_state" where
  "receive_sort unicode_ToLower st =
     (case curIngresses st of
        None \<Rightarrow> st
      | Some a \<Rightarrow> st\<lparr>heap := sortIngresses unicode_ToLower (heap st) a\<rparr>)"

definition receive :: "(string \<Rightarrow> string) \<Rightarrow> listen_state \<Rightarrow> nat \<Rightarrow> listen_state" where
  "receive unicode_ToLower st cur = receive_sort unicode_ToLower (receive_assign st cur)"

definition handler :: "listen_state \<Rightarrow> ingress list" where
  "handler st = (case curIngresses st of None \<Rightarrow> [] | Some a \<Rightarrow> heap st a)"

text \<open>
  The order that the specification words for the rendered list, for comparison with
  the order of the code: case-insensitive lexicographic comparison of the namespace,
  then the name, then the address.
\<close>

definition spec_composite_le :: "(string \<Rightarrow> string) \<Rightarrow> ingress \<Rightarrow> ingress \<Rightarrow> bool" where
  "spec_composite_le unicode_ToLower a b =
     (strings_ToLower unicode_ToLower (Namespace a) < strings_ToLower unicode_ToLower (Namespace b)
      \<or> (strings_ToLower unicode_ToLower (Namespace a) = strings_ToLower unicode_ToLower (Namespace b)
          \<and> (strings_ToLower unicode_ToLower (Name a) < strings_ToLower unicode_ToLower (Name b)
              \<or> (strings_ToLower unicode_ToLower (Name a) = strings_ToLower unicode_ToLower (Name b)
                  \<and> strings_ToLower unicode_ToLower (FQDN a)
                      \<le> strings_ToLower unicode_ToLower (FQDN b)))))"

text \<open>
  The records on which the two orders are compared: the three fields are ASCII and the
  namespace and the name, lower-cased, hold only characters above the comma (letters,
  digits, the hyphen and the dot: the characters of the names that Kubernetes accepts).
\<close>

definition plain_record :: "ingress \<Rightarrow> bool" where
  "plain_record r =
     (isASCII (Namespace r) \<and> isASCII (Name r) \<and> isASCII (FQDN r)
      \<and> list_all (\<lambda>c. CHR '','' < c) (map ToLower_char (Namespace r) @ map ToLower_char (Name r)))"

subsection \<open>The validation at the start of \<^verbatim>\<open>main\<close>\<close>

text \<open>
  \<^verbatim>\<open>strings.Split(s, ",")\<close> (Go's standard library) cuts \<open>s\<close> at every separator; a
  string without separator, the empty string included, gives the list of that one
  string.
\<close>

fun strings_Split :: "string \<Rightarrow> char \<Rightarrow> string list" where
  "strings_Split [] sep = [[]]"
| "strings_Split (c # cs) sep =
     (if c = sep then [] # strings_Split cs sep
      else (case strings_Split cs sep of
              [] \<Rightarrow> [[c]]
            | w # ws \<Rightarrow> (c # w) # ws))"

text \<open>
  The validation block of \<^verbatim>\<open>main\<close>. Its inputs are the value of the flag
  \<^verbatim>\<open>-namespaces\<close> (default the empty string) and the value of the environment variable
  \<^verbatim>\<open>NAMESPACES\<close> (the empty string when unset):
  \<^verbatim>\<open>var watchableNamespaces = strings.Split(*flagWatchableNamespaces, ",")\<close>
  \<^verbatim>\<open>if *flagWatchableNamespaces == "" { ns := os.Getenv("NAMESPACES"); flagWatchableNamespaces = &ns }\<close>
  \<^verbatim>\<open>if *flagWatchableNamespaces == "" || len(watchableNamespaces) == 0 { panic(...) }\<close>
  \<^verbatim>\<open>sort.Strings(watchableNamespaces)\<close>.
  The result is the message of the panic, or the sorted list \<^verbatim>\<open>watchableNamespaces\<close>
  that \<^verbatim>\<open>main\<close> later passes to \<^verbatim>\<open>watchIngresses\<close>.
\<close>

definition main_validation :: "string \<Rightarrow> string \<Rightarrow> string + string list" where
  "main_validation flag_namespaces env_NAMESPACES =
     (let watchableNamespaces = strings_Split flag_namespaces CHR '','';
          flagWatchableNamespaces =
            (if flag_namespaces = [] then env_NAMESPACES else flag_namespaces)
      in if flagWatchableNamespaces = [] \<or> length watchableNamespaces = 0
         then Inl ''You need to specify -namespaces for namespaces to watch''
         else Inr (sort watchableNamespaces))"

section \<open>Properties of the accumulator\<close>

lemma upsert_found_iff: "upsert_found xs ing \<longleftrightarrow> (\<exists>a \<in> set xs. Name a = Name ing)"
  by (induction xs) auto

lemma delete_loop_filter:
  "delete_loop xs ing nxt = nxt @ filter (\<lambda>a. Name a \<noteq> Name ing) xs"
  by (induction xs arbitrary: nxt) auto

lemma active_upsert:
  "active (snd (upsert i ing)) =
     (if \<exists>a \<in> set (active i). Name a = Name ing then active i else active i @ [ing])"
  by (simp add: upsert_def Let_def upsert_found_iff)

lemma active_delete:
  "active (snd (delete i ing)) = filter (\<lambda>a. Name a \<noteq> Name ing) (active i)"
  by (simp add: delete_def Let_def delete_loop_filter)

lemma fst_upsert: "fst (upsert i ing) = active (snd (upsert i ing))"
  by (simp add: upsert_def Let_def)

lemma fst_delete: "fst (delete i ing) = active (snd (delete i ing))"
  by (simp add: delete_def Let_def)

lemma upsert_present:
  assumes "\<exists>a \<in> set (active i). Name a = Name ing"
  shows "upsert i ing = (active i, i)"
  using assms by (simp add: upsert_def Let_def upsert_found_iff)

lemma upsert_absent:
  assumes "\<forall>a \<in> set (active i). Name a \<noteq> Name ing"
  shows "upsert i ing = (active i @ [ing], i\<lparr>active := active i @ [ing]\<rparr>)"
  using assms by (simp add: upsert_def Let_def upsert_found_iff)

lemma delete_absent:
  assumes "\<forall>a \<in> set (active i). Name a \<noteq> Name ing"
  shows "delete i ing = (active i, i)"
proof -
  from assms have "filter (\<lambda>a. Name a \<noteq> Name ing) (active i) = active i"
    by (simp add: filter_id_conv)
  then show ?thesis
    by (simp add: delete_def Let_def delete_loop_filter)
qed

text \<open>
  Claim C1. When some stored record already has the name of \<open>r\<close>, \<open>upsert r\<close> changes
  nothing: the state after the call is the state before it (so the stored record keeps
  its namespace and address, whatever \<open>r\<close> carries) and the returned list is the stored
  list. When no stored record has the name of \<open>r\<close>, \<open>r\<close> is appended. In particular,
  a second upsert \<open>r'\<close> under the name of \<open>r\<close> leaves the state as the first upsert
  made it, and a record \<open>r\<close> that the first upsert appended is still stored, with its
  original address, after the second.
\<close>

theorem upsert_first_write_wins:
  "((\<exists>a \<in> set (active i). Name a = Name r) \<longrightarrow> upsert i r = (active i, i))
   \<and> ((\<forall>a \<in> set (active i). Name a \<noteq> Name r) \<longrightarrow>
        active (snd (upsert i r)) = active i @ [r] \<and> fst (upsert i r) = active i @ [r])
   \<and> (Name r' = Name r \<longrightarrow>
        upsert (snd (upsert i r)) r' = (active (snd (upsert i r)), snd (upsert i r))
        \<and> ((\<forall>a \<in> set (active i). Name a \<noteq> Name r) \<longrightarrow>
             r \<in> set (active (snd (upsert (snd (upsert i r)) r')))))"
proof (intro conjI impI)
  assume "\<exists>a \<in> set (active i). Name a = Name r"
  then show "upsert i r = (active i, i)" by (rule upsert_present)
next
  assume "\<forall>a \<in> set (active i). Name a \<noteq> Name r"
  then show "active (snd (upsert i r)) = active i @ [r]"
    and "fst (upsert i r) = active i @ [r]"
    by (simp_all add: upsert_absent)
next
  assume same: "Name r' = Name r"
  have "\<exists>a \<in> set (active (snd (upsert i r))). Name a = Name r'"
    using same by (auto simp: active_upsert)
  then show again: "upsert (snd (upsert i r)) r' = (active (snd (upsert i r)), snd (upsert i r))"
    by (rule upsert_present)
  assume "\<forall>a \<in> set (active i). Name a \<noteq> Name r"
  then have "r \<in> set (active (snd (upsert i r)))"
    by (simp add: upsert_absent)
  then show "r \<in> set (active (snd (upsert (snd (upsert i r)) r')))"
    by (simp add: again)
qed

theorem upsert_first_write_wins_witness:
  "(\<exists>a \<in> set (active \<lparr>active = [\<lparr>Name = ''web'', Namespace = ''default'', FQDN = ''https://one.example.com''\<rparr>]\<rparr>).
      Name a = Name \<lparr>Name = ''web'', Namespace = ''default'', FQDN = ''https://two.example.com''\<rparr>)
   \<and> upsert \<lparr>active = [\<lparr>Name = ''web'', Namespace = ''default'', FQDN = ''https://one.example.com''\<rparr>]\<rparr>
        \<lparr>Name = ''web'', Namespace = ''default'', FQDN = ''https://two.example.com''\<rparr>
      = ([\<lparr>Name = ''web'', Namespace = ''default'', FQDN = ''https://one.example.com''\<rparr>],
         \<lparr>active = [\<lparr>Name = ''web'', Namespace = ''default'', FQDN = ''https://one.example.com''\<rparr>]\<rparr>)
   \<and> \<lparr>Name = ''web'', Namespace = ''default'', FQDN = ''https://one.example.com''\<rparr>
        \<in> set (active (snd (upsert (snd (upsert \<lparr>active = []\<rparr>
              \<lparr>Name = ''web'', Namespace = ''default'', FQDN = ''https://one.example.com''\<rparr>))
              \<lparr>Name = ''web'', Namespace = ''default'', FQDN = ''https://two.example.com''\<rparr>)))"
  using upsert_first_write_wins
      [of "\<lparr>active = [\<lparr>Name = ''web'', Namespace = ''default'', FQDN = ''https://one.example.com''\<rparr>]\<rparr>"
          "\<lparr>Name = ''web'', Namespace = ''default'', FQDN = ''https://two.example.com''\<rparr>"
          "\<lparr>Name = ''web'', Namespace = ''default'', FQDN = ''https://two.example.com''\<rparr>"]
    upsert_first_write_wins
      [of "\<lparr>active = []\<rparr>"
          "\<lparr>Name = ''web'', Namespace = ''default'', FQDN = ''https://one.example.com''\<rparr>"
          "\<lparr>Name = ''web'', Namespace = ''default'', FQDN = ''https://two.example.com''\<rparr>"]
  by simp

text \<open>
  Claim C2. The identity of a record in the accumulator is its name alone. When a
  record named as \<open>r\<close> is stored under another namespace, \<open>upsert r\<close> returns the stored
  list and leaves the state as it was (the call has no error result: \<open>upsert\<close> is a
  total function into lists and states). \<open>delete r\<close> keeps exactly the records whose
  name differs from the name of \<open>r\<close>, so every stored record named as \<open>r\<close> is removed,
  whatever its namespace.
\<close>

theorem identity_is_name_only:
  "(a \<in> set (active i) \<and> Name a = Name r \<and> Namespace a \<noteq> Namespace r
      \<longrightarrow> upsert i r = (active i, i))
   \<and> (a \<in> set (active i) \<and> Name a = Name r
      \<longrightarrow> a \<notin> set (active (snd (delete i r))) \<and> a \<notin> set (fst (delete i r)))
   \<and> active (snd (delete i r)) = filter (\<lambda>b. Name b \<noteq> Name r) (active i)"
proof (intro conjI impI)
  assume "a \<in> set (active i) \<and> Name a = Name r \<and> Namespace a \<noteq> Namespace r"
  then have "\<exists>b \<in> set (active i). Name b = Name r" by blast
  then show "upsert i r = (active i, i)" by (rule upsert_present)
next
  assume "a \<in> set (active i) \<and> Name a = Name r"
  then show "a \<notin> set (active (snd (delete i r)))" by (simp add: active_delete)
  then show "a \<notin> set (fst (delete i r))" by (simp add: fst_delete)
next
  show "active (snd (delete i r)) = filter (\<lambda>b. Name b \<noteq> Name r) (active i)"
    by (rule active_delete)
qed

theorem identity_is_name_only_witness:
  "upsert \<lparr>active = [\<lparr>Name = ''web'', Namespace = ''team-a'', FQDN = ''https://a.example.com''\<rparr>]\<rparr>
        \<lparr>Name = ''web'', Namespace = ''team-b'', FQDN = ''https://b.example.com''\<rparr>
      = ([\<lparr>Name = ''web'', Namespace = ''team-a'', FQDN = ''https://a.example.com''\<rparr>],
         \<lparr>active = [\<lparr>Name = ''web'', Namespace = ''team-a'', FQDN = ''https://a.example.com''\<rparr>]\<rparr>)
   \<and> \<lparr>Name = ''web'', Namespace = ''team-a'', FQDN = ''https://a.example.com''\<rparr>
        \<notin> set (fst (delete \<lparr>active = [\<lparr>Name = ''web'', Namespace = ''team-a'', FQDN = ''https://a.example.com''\<rparr>]\<rparr>
              \<lparr>Name = ''web'', Namespace = ''team-b'', FQDN = ''https://b.example.com''\<rparr>))"
  using identity_is_name_only
      [of "\<lparr>Name = ''web'', Namespace = ''team-a'', FQDN = ''https://a.example.com''\<rparr>"
          "\<lparr>active = [\<lparr>Name = ''web'', Namespace = ''team-a'', FQDN = ''https://a.example.com''\<rparr>]\<rparr>"
          "\<lparr>Name = ''web'', Namespace = ''team-b'', FQDN = ''https://b.example.com''\<rparr>"]
  by simp

text \<open>
  Claim C3. \<open>delete r\<close> removes every stored record whose name is the name of \<open>r\<close>,
  keeps the others in their order, and returns the list that remains. When no stored
  record has that name, the state is unchanged and the whole stored list is returned.
\<close>

theorem delete_removes_all_named:
  "delete i r = (filter (\<lambda>a. Name a \<noteq> Name r) (active i),
                 i\<lparr>active := filter (\<lambda>a. Name a \<noteq> Name r) (active i)\<rparr>)
   \<and> ((\<forall>a \<in> set (active i). Name a \<noteq> Name r) \<longrightarrow> delete i r = (active i, i))"
proof (intro conjI impI)
  show "delete i r = (filter (\<lambda>a. Name a \<noteq> Name r) (active i),
                      i\<lparr>active := filter (\<lambda>a. Name a \<noteq> Name r) (active i)\<rparr>)"
    by (simp add: delete_def Let_def delete_loop_filter)
next
  assume "\<forall>a \<in> set (active i). Name a \<noteq> Name r"
  then show "delete i r = (active i, i)" by (rule delete_absent)
qed

theorem delete_removes_all_named_witness:
  "Name \<lparr>Name = ''api'', Namespace = ''default'', FQDN = ''https://b.example.com''\<rparr>
     \<notin> Name ` set (active \<lparr>active = [\<lparr>Name = ''web'', Namespace = ''default'', FQDN = ''https://a.example.com''\<rparr>]\<rparr>)
   \<and> delete \<lparr>active = [\<lparr>Name = ''web'', Namespace = ''default'', FQDN = ''https://a.example.com''\<rparr>]\<rparr>
        \<lparr>Name = ''api'', Namespace = ''default'', FQDN = ''https://b.example.com''\<rparr>
      = ([\<lparr>Name = ''web'', Namespace = ''default'', FQDN = ''https://a.example.com''\<rparr>],
         \<lparr>active = [\<lparr>Name = ''web'', Namespace = ''default'', FQDN = ''https://a.example.com''\<rparr>]\<rparr>)"
  using delete_removes_all_named
      [of "\<lparr>active = [\<lparr>Name = ''web'', Namespace = ''default'', FQDN = ''https://a.example.com''\<rparr>]\<rparr>"
          "\<lparr>Name = ''api'', Namespace = ''default'', FQDN = ''https://b.example.com''\<rparr>"]
  by simp

subsection \<open>The invariant of the reachable states\<close>

lemma upsert_keeps_distinct:
  assumes "distinct (map Name (active i))"
  shows "distinct (map Name (active (snd (upsert i ing))))"
  using assms by (auto simp: active_upsert)

lemma delete_keeps_distinct:
  assumes "distinct (map Name (active i))"
  shows "distinct (map Name (active (snd (delete i ing))))"
  using assms by (simp add: active_delete distinct_map_filter)

lemma apply_call_keeps_inv:
  assumes "distinct (map Name (active i))" and "\<forall>a \<in> set (active i). FQDN a \<noteq> []"
    and "upserted_nonempty c"
  shows "distinct (map Name (active (apply_call i c)))
         \<and> (\<forall>a \<in> set (active (apply_call i c)). FQDN a \<noteq> [])"
proof (cases c)
  case (Upsert ing)
  with assms(3) have "FQDN ing \<noteq> []" by simp
  with assms(2) have "\<forall>a \<in> set (active (snd (upsert i ing))). FQDN a \<noteq> []"
    by (auto simp: active_upsert)
  with Upsert assms(1) show ?thesis
    by (simp add: upsert_keeps_distinct)
next
  case (Delete ing)
  from assms(2) have "\<forall>a \<in> set (active (snd (delete i ing))). FQDN a \<noteq> []"
    by (simp add: active_delete)
  with Delete assms(1) show ?thesis
    by (simp add: delete_keeps_distinct)
qed

lemma apply_calls_keeps_inv:
  assumes "list_all upserted_nonempty cs"
    and "distinct (map Name (active i))" and "\<forall>a \<in> set (active i). FQDN a \<noteq> []"
  shows "distinct (map Name (active (apply_calls i cs)))
         \<and> (\<forall>a \<in> set (active (apply_calls i cs)). FQDN a \<noteq> [])"
  using assms
proof (induction cs arbitrary: i)
  case Nil
  then show ?case by simp
next
  case (Cons c cs)
  from Cons.prems have c: "upserted_nonempty c" and cs: "list_all upserted_nonempty cs"
    by simp_all
  from apply_call_keeps_inv [OF Cons.prems(2) Cons.prems(3) c]
  have "distinct (map Name (active (apply_call i c)))"
    and "\<forall>a \<in> set (active (apply_call i c)). FQDN a \<noteq> []"
    by simp_all
  from Cons.IH [OF cs this] show ?case by simp
qed

text \<open>
  Claim C4. Every state reached from the empty accumulator by a finite sequence of
  upsert and delete calls in which each upserted record has a non-empty address holds
  no two records of the same name and no record with an empty address.
\<close>

theorem reachable_no_duplicate_no_empty:
  assumes "list_all upserted_nonempty cs"
  shows "distinct (map Name (active (apply_calls accum_empty cs)))
         \<and> (\<forall>a \<in> set (active (apply_calls accum_empty cs)). FQDN a \<noteq> [])"
  using assms by (intro apply_calls_keeps_inv) (simp_all add: accum_empty_def)

theorem reachable_no_duplicate_no_empty_witness:
  "list_all upserted_nonempty
     [Upsert \<lparr>Name = ''web'', Namespace = ''default'', FQDN = ''https://a.example.com''\<rparr>,
      Upsert \<lparr>Name = ''web'', Namespace = ''other'', FQDN = ''https://b.example.com''\<rparr>,
      Upsert \<lparr>Name = ''api'', Namespace = ''default'', FQDN = ''https://c.example.com''\<rparr>,
      Delete \<lparr>Name = ''web'', Namespace = ''default'', FQDN = ''https://a.example.com''\<rparr>]
   \<and> distinct (map Name (active (apply_calls accum_empty
     [Upsert \<lparr>Name = ''web'', Namespace = ''default'', FQDN = ''https://a.example.com''\<rparr>,
      Upsert \<lparr>Name = ''web'', Namespace = ''other'', FQDN = ''https://b.example.com''\<rparr>,
      Upsert \<lparr>Name = ''api'', Namespace = ''default'', FQDN = ''https://c.example.com''\<rparr>,
      Delete \<lparr>Name = ''web'', Namespace = ''default'', FQDN = ''https://a.example.com''\<rparr>])))"
proof -
  have h: "list_all upserted_nonempty
     [Upsert \<lparr>Name = ''web'', Namespace = ''default'', FQDN = ''https://a.example.com''\<rparr>,
      Upsert \<lparr>Name = ''web'', Namespace = ''other'', FQDN = ''https://b.example.com''\<rparr>,
      Upsert \<lparr>Name = ''api'', Namespace = ''default'', FQDN = ''https://c.example.com''\<rparr>,
      Delete \<lparr>Name = ''web'', Namespace = ''default'', FQDN = ''https://a.example.com''\<rparr>]"
    by simp
  from reachable_no_duplicate_no_empty [OF h] h show ?thesis by blast
qed

section \<open>Properties of the normalizer\<close>

lemma tlsHosts_inner_iff: "tlsHosts_inner hs m h \<longleftrightarrow> m h \<or> h \<in> set hs"
  by (induction hs arbitrary: m) auto

lemma tlsHosts_outer_iff:
  "tlsHosts_outer ts m h \<longleftrightarrow> m h \<or> (\<exists>t \<in> set ts. h \<in> set (Hosts t))"
  by (induction ts arbitrary: m) (auto simp: tlsHosts_inner_iff)

lemma tlsHosts_fresh_iff:
  "tlsHosts_outer ts (\<lambda>_. False) h \<longleftrightarrow> (\<exists>t \<in> set ts. h \<in> set (Hosts t))"
  by (simp add: tlsHosts_outer_iff)

lemma buildFQDN_rules_skip:
  assumes "\<forall>x \<in> set pre. ignored (rule_URL P force tls (Host x))"
  shows "buildFQDN_rules P force tls (pre @ rs) = buildFQDN_rules P force tls rs"
  using assms by (induction pre) (simp_all add: Let_def)

lemma buildFQDN_rules_first:
  assumes "\<forall>x \<in> set pre. ignored (rule_URL P force tls (Host x))"
    and "\<not> ignored (rule_URL P force tls (Host r))"
  shows "buildFQDN_rules P force tls (pre @ r # post) = URL_String (the (rule_URL P force tls (Host r)))"
  using assms by (simp add: buildFQDN_rules_skip Let_def)

lemma buildFQDN_rules_none:
  assumes "\<forall>x \<in> set rs. ignored (rule_URL P force tls (Host x))"
  shows "buildFQDN_rules P force tls rs = []"
  using buildFQDN_rules_skip [OF assms, of "[]"] by simp

lemma buildFQDN_with_rules:
  "buildFQDN P force (ing\<lparr>Spec := (Spec ing)\<lparr>Rules := rs\<rparr>\<rparr>) =
     buildFQDN_rules P force (tlsHosts_outer (TLS (Spec ing)) (\<lambda>_. False)) rs"
  by (simp add: buildFQDN_def Let_def)

lemma buildFQDN_rules_eq:
  "buildFQDN P force ing =
     buildFQDN_rules P force (tlsHosts_outer (TLS (Spec ing)) (\<lambda>_. False)) (Rules (Spec ing))"
  by (simp add: buildFQDN_def Let_def)

lemma http_not_https: "prefix ''http://'' s \<Longrightarrow> \<not> prefix ''https://'' s"
  by (auto simp: prefix_def)

lemmas plain_defs =
  url_Parse_plain_def plain_URL_def plain_host_def plain_host_char_def plain_port_char_def

lemma single_rule_accepted:
  assumes "Rules (Spec ing) = [r]"
    and "rule_URL P force (tlsHosts_outer (TLS (Spec ing)) (\<lambda>_. False)) (Host r) = Some u"
    and "URL_Host u \<noteq> []" and "\<not> prefix ''localhost:'' (URL_Host u)"
    and "URL_String u \<noteq> []"
  shows "buildIngress P force ing =
      Inr \<lparr>Name = k8s_Name ing, Namespace = k8s_Namespace ing, FQDN = URL_String u\<rparr>"
  using assms by (simp add: buildIngress_def buildFQDN_rules_eq ignored_def Let_def)

lemma buildIngress_address_nonempty:
  assumes "buildIngress P force ing = Inr r"
  shows "FQDN r \<noteq> [] \<and> Name r = k8s_Name ing \<and> Namespace r = k8s_Namespace ing"
  using assms by (auto simp: buildIngress_def Let_def split: if_splits)

text \<open>
  Claim C5. For every object and every host, the URL that a rule with this host is
  parsed from has scheme \<open>https\<close> exactly when force-TLS is on or the host is among the
  hosts of the object's TLS entries, and scheme \<open>http\<close> otherwise. For an object with a
  single rule that is accepted (the library parses the URL into one with a non-empty
  host that is not a \<open>localhost:\<close> alias, and renders it to a non-empty text), the
  address of the record is the rendering of that URL. In particular, with force-TLS
  off and the host not listed under TLS, a library that renders the parsed
  \<open>http://host\<close> with the scheme it was given yields an address that begins with
  \<open>http://\<close>, not with \<open>https://\<close>.
\<close>

theorem scheme_https_iff_force_or_tls:
  "rule_URL P force (tlsHosts_outer (TLS (Spec ing)) (\<lambda>_. False)) h =
     (if force \<or> (\<exists>t \<in> set (TLS (Spec ing)). h \<in> set (Hosts t))
      then P (''https://'' @ h) else P (''http://'' @ h))
   \<and> (Rules (Spec ing) = [r]
       \<and> P ((if force \<or> (\<exists>t \<in> set (TLS (Spec ing)). Host r \<in> set (Hosts t))
             then ''https://'' else ''http://'') @ Host r) = Some v
       \<and> URL_Host v \<noteq> [] \<and> \<not> prefix ''localhost:'' (URL_Host v) \<and> URL_String v \<noteq> []
      \<longrightarrow> buildIngress P force ing =
            Inr \<lparr>Name = k8s_Name ing, Namespace = k8s_Namespace ing, FQDN = URL_String v\<rparr>)
   \<and> (Rules (Spec ing) = [r] \<and> \<not> force \<and> (\<forall>t \<in> set (TLS (Spec ing)). Host r \<notin> set (Hosts t))
       \<and> P (''http://'' @ Host r) = Some u \<and> URL_Host u \<noteq> [] \<and> \<not> prefix ''localhost:'' (URL_Host u)
       \<and> prefix ''http://'' (URL_String u)
      \<longrightarrow> buildIngress P force ing =
            Inr \<lparr>Name = k8s_Name ing, Namespace = k8s_Namespace ing, FQDN = URL_String u\<rparr>
          \<and> prefix ''http://'' (FQDN (projr (buildIngress P force ing)))
          \<and> \<not> prefix ''https://'' (FQDN (projr (buildIngress P force ing))))"
proof (intro conjI impI)
  show "rule_URL P force (tlsHosts_outer (TLS (Spec ing)) (\<lambda>_. False)) h =
     (if force \<or> (\<exists>t \<in> set (TLS (Spec ing)). h \<in> set (Hosts t))
      then P (''https://'' @ h) else P (''http://'' @ h))"
    by (simp add: rule_URL_def tlsHosts_fresh_iff)
next
  assume a: "Rules (Spec ing) = [r]
       \<and> P ((if force \<or> (\<exists>t \<in> set (TLS (Spec ing)). Host r \<in> set (Hosts t))
             then ''https://'' else ''http://'') @ Host r) = Some v
       \<and> URL_Host v \<noteq> [] \<and> \<not> prefix ''localhost:'' (URL_Host v) \<and> URL_String v \<noteq> []"
  then have "rule_URL P force (tlsHosts_outer (TLS (Spec ing)) (\<lambda>_. False)) (Host r) = Some v"
    by (auto simp: rule_URL_def tlsHosts_fresh_iff split: if_splits)
  with a show "buildIngress P force ing =
      Inr \<lparr>Name = k8s_Name ing, Namespace = k8s_Namespace ing, FQDN = URL_String v\<rparr>"
    by (intro single_rule_accepted) simp_all
next
  assume a: "Rules (Spec ing) = [r] \<and> \<not> force \<and> (\<forall>t \<in> set (TLS (Spec ing)). Host r \<notin> set (Hosts t))
       \<and> P (''http://'' @ Host r) = Some u \<and> URL_Host u \<noteq> [] \<and> \<not> prefix ''localhost:'' (URL_Host u)
       \<and> prefix ''http://'' (URL_String u)"
  then have url: "rule_URL P force (tlsHosts_outer (TLS (Spec ing)) (\<lambda>_. False)) (Host r) = Some u"
    by (simp add: rule_URL_def tlsHosts_fresh_iff)
  from a have pre: "prefix ''http://'' (URL_String u)" by simp
  then have ne: "URL_String u \<noteq> []" by auto
  from a url ne show res: "buildIngress P force ing =
      Inr \<lparr>Name = k8s_Name ing, Namespace = k8s_Namespace ing, FQDN = URL_String u\<rparr>"
    by (intro single_rule_accepted) simp_all
  from pre show "prefix ''http://'' (FQDN (projr (buildIngress P force ing)))"
    unfolding res by simp
  from pre [THEN http_not_https]
  show "\<not> prefix ''https://'' (FQDN (projr (buildIngress P force ing)))"
    unfolding res by simp
qed

lemma plain_http_app: "url_Parse_plain ''http://app.example.com'' =
    Some \<lparr>URL_Host = ''app.example.com'', URL_String = ''http://app.example.com''\<rparr>"
  by (simp add: plain_defs)

lemma plain_https_secure: "url_Parse_plain ''https://secure.example.com'' =
    Some \<lparr>URL_Host = ''secure.example.com'', URL_String = ''https://secure.example.com''\<rparr>"
  by (simp add: plain_defs)

theorem scheme_https_iff_force_or_tls_witness:
  "buildIngress url_Parse_plain False
      \<lparr>k8s_Namespace = ''default'', k8s_Name = ''web'',
       Spec = \<lparr>TLS = [\<lparr>Hosts = [''secure.example.com'']\<rparr>],
                Rules = [\<lparr>Host = ''app.example.com''\<rparr>]\<rparr>\<rparr>
     = Inr \<lparr>Name = ''web'', Namespace = ''default'', FQDN = ''http://app.example.com''\<rparr>
   \<and> buildIngress url_Parse_plain False
      \<lparr>k8s_Namespace = ''default'', k8s_Name = ''shop'',
       Spec = \<lparr>TLS = [\<lparr>Hosts = [''secure.example.com'']\<rparr>],
                Rules = [\<lparr>Host = ''secure.example.com''\<rparr>]\<rparr>\<rparr>
     = Inr \<lparr>Name = ''shop'', Namespace = ''default'', FQDN = ''https://secure.example.com''\<rparr>"
proof -
  let ?web = "\<lparr>k8s_Namespace = ''default'', k8s_Name = ''web'',
       Spec = \<lparr>TLS = [\<lparr>Hosts = [''secure.example.com'']\<rparr>],
                Rules = [\<lparr>Host = ''app.example.com''\<rparr>]\<rparr>\<rparr>"
  let ?shop = "\<lparr>k8s_Namespace = ''default'', k8s_Name = ''shop'',
       Spec = \<lparr>TLS = [\<lparr>Hosts = [''secure.example.com'']\<rparr>],
                Rules = [\<lparr>Host = ''secure.example.com''\<rparr>]\<rparr>\<rparr>"
  from scheme_https_iff_force_or_tls
      [of url_Parse_plain False ?web _ "\<lparr>Host = ''app.example.com''\<rparr>" _
          "\<lparr>URL_Host = ''app.example.com'', URL_String = ''http://app.example.com''\<rparr>"]
    plain_http_app
  have "buildIngress url_Parse_plain False ?web
      = Inr \<lparr>Name = ''web'', Namespace = ''default'', FQDN = ''http://app.example.com''\<rparr>"
    by simp
  moreover
  from scheme_https_iff_force_or_tls
      [of url_Parse_plain False ?shop _ "\<lparr>Host = ''secure.example.com''\<rparr>"
          "\<lparr>URL_Host = ''secure.example.com'', URL_String = ''https://secure.example.com''\<rparr>"]
    plain_https_secure
  have "buildIngress url_Parse_plain False ?shop
      = Inr \<lparr>Name = ''shop'', Namespace = ''default'', FQDN = ''https://secure.example.com''\<rparr>"
    by simp
  ultimately show ?thesis by (rule conjI)
qed

text \<open>
  Claim C6. A rule whose URL parses to a URL with an empty host, or with a host that
  begins with \<open>localhost:\<close>, is skipped: the result is that of the remaining rules.
  When every rule of an object is rejected in this way, \<open>buildFQDN\<close> returns the empty
  string and \<open>buildIngress\<close> fails with the empty-FQDN error, so no record is produced.
\<close>

theorem loopback_and_hostless_rules_rejected:
  "(Rules (Spec ing) = r # rs
      \<and> rule_URL P force (tlsHosts_outer (TLS (Spec ing)) (\<lambda>_. False)) (Host r) = Some u
      \<and> (URL_Host u = [] \<or> prefix ''localhost:'' (URL_Host u))
     \<longrightarrow> buildFQDN P force ing = buildFQDN P force (ing\<lparr>Spec := (Spec ing)\<lparr>Rules := rs\<rparr>\<rparr>))
   \<and> ((\<forall>x \<in> set (Rules (Spec ing)).
          \<exists>v. rule_URL P force (tlsHosts_outer (TLS (Spec ing)) (\<lambda>_. False)) (Host x) = Some v
             \<and> (URL_Host v = [] \<or> prefix ''localhost:'' (URL_Host v)))
     \<longrightarrow> buildFQDN P force ing = [] \<and> buildIngress P force ing = Inl EmptyFQDN)"
proof (intro conjI impI)
  assume a: "Rules (Spec ing) = r # rs
      \<and> rule_URL P force (tlsHosts_outer (TLS (Spec ing)) (\<lambda>_. False)) (Host r) = Some u
      \<and> (URL_Host u = [] \<or> prefix ''localhost:'' (URL_Host u))"
  then have "ignored (rule_URL P force (tlsHosts_outer (TLS (Spec ing)) (\<lambda>_. False)) (Host r))"
    by (auto simp: ignored_def)
  with a show "buildFQDN P force ing = buildFQDN P force (ing\<lparr>Spec := (Spec ing)\<lparr>Rules := rs\<rparr>\<rparr>)"
    by (simp add: buildFQDN_with_rules buildFQDN_rules_eq Let_def)
next
  assume "\<forall>x \<in> set (Rules (Spec ing)).
          \<exists>v. rule_URL P force (tlsHosts_outer (TLS (Spec ing)) (\<lambda>_. False)) (Host x) = Some v
             \<and> (URL_Host v = [] \<or> prefix ''localhost:'' (URL_Host v))"
  then have "\<forall>x \<in> set (Rules (Spec ing)).
      ignored (rule_URL P force (tlsHosts_outer (TLS (Spec ing)) (\<lambda>_. False)) (Host x))"
    by (auto simp: ignored_def)
  then show empty: "buildFQDN P force ing = []"
    unfolding buildFQDN_rules_eq by (rule buildFQDN_rules_none)
  then show "buildIngress P force ing = Inl EmptyFQDN"
    by (simp add: buildIngress_def)
qed

lemma plain_localhost_8080: "url_Parse_plain ''https://localhost:8080'' =
    Some \<lparr>URL_Host = ''localhost:8080'', URL_String = ''https://localhost:8080''\<rparr>"
  by (simp add: plain_defs)

lemma plain_https_app: "url_Parse_plain ''https://app.example.com'' =
    Some \<lparr>URL_Host = ''app.example.com'', URL_String = ''https://app.example.com''\<rparr>"
  by (simp add: plain_defs)

lemma plain_https_nohost:
  "url_Parse_plain ''https://'' = Some \<lparr>URL_Host = [], URL_String = ''https:''\<rparr>"
  by (simp add: plain_defs)

theorem loopback_and_hostless_rules_rejected_witness:
  "buildIngress url_Parse_plain True
      \<lparr>k8s_Namespace = ''default'', k8s_Name = ''dev'',
       Spec = \<lparr>TLS = [], Rules = [\<lparr>Host = ''localhost:8080''\<rparr>]\<rparr>\<rparr> = Inl EmptyFQDN
   \<and> buildIngress url_Parse_plain True
      \<lparr>k8s_Namespace = ''default'', k8s_Name = ''dev'',
       Spec = \<lparr>TLS = [], Rules = [\<lparr>Host = []\<rparr>, \<lparr>Host = ''localhost:8080''\<rparr>]\<rparr>\<rparr> = Inl EmptyFQDN
   \<and> buildFQDN url_Parse_plain True
      \<lparr>k8s_Namespace = ''default'', k8s_Name = ''dev'',
       Spec = \<lparr>TLS = [], Rules = [\<lparr>Host = ''localhost:8080''\<rparr>, \<lparr>Host = ''app.example.com''\<rparr>]\<rparr>\<rparr>
     = ''https://app.example.com''"
proof -
  let ?u = "\<lparr>URL_Host = ''localhost:8080'', URL_String = ''https://localhost:8080''\<rparr>"
  let ?r = "\<lparr>Host = ''localhost:8080''\<rparr>"
  let ?one = "\<lparr>k8s_Namespace = ''default'', k8s_Name = ''dev'',
       Spec = \<lparr>TLS = [], Rules = [?r]\<rparr>\<rparr>"
  let ?none = "\<lparr>k8s_Namespace = ''default'', k8s_Name = ''dev'',
       Spec = \<lparr>TLS = [], Rules = [\<lparr>Host = []\<rparr>, ?r]\<rparr>\<rparr>"
  let ?two = "\<lparr>k8s_Namespace = ''default'', k8s_Name = ''dev'',
       Spec = \<lparr>TLS = [], Rules = [?r, \<lparr>Host = ''app.example.com''\<rparr>]\<rparr>\<rparr>"
  have url: "rule_URL url_Parse_plain True (\<lambda>_. False) (Host ?r) = Some ?u"
    by (simp add: rule_URL_def plain_localhost_8080)
  have nohost: "rule_URL url_Parse_plain True (\<lambda>_. False) [] =
      Some \<lparr>URL_Host = [], URL_String = ''https:''\<rparr>"
    by (simp add: rule_URL_def plain_https_nohost)
  have rest: "buildFQDN url_Parse_plain True
      \<lparr>k8s_Namespace = ''default'', k8s_Name = ''dev'',
       Spec = \<lparr>TLS = [], Rules = [\<lparr>Host = ''app.example.com''\<rparr>]\<rparr>\<rparr> = ''https://app.example.com''"
    by (simp add: buildFQDN_def rule_URL_def ignored_def plain_https_app)
  from loopback_and_hostless_rules_rejected [of ?one ?r "[]" url_Parse_plain True ?u] url
  have "buildIngress url_Parse_plain True ?one = Inl EmptyFQDN" by simp
  moreover
  from loopback_and_hostless_rules_rejected [of ?none _ _ url_Parse_plain True] url nohost
  have "buildIngress url_Parse_plain True ?none = Inl EmptyFQDN" by simp
  moreover
  from loopback_and_hostless_rules_rejected
      [of ?two ?r "[\<lparr>Host = ''app.example.com''\<rparr>]" url_Parse_plain True ?u] url rest
  have "buildFQDN url_Parse_plain True ?two = ''https://app.example.com''" by simp
  ultimately show ?thesis by simp
qed

lemma first_accepted_split:
  assumes "\<exists>r \<in> set rs. \<not> ignored (rule_URL P force tls (Host r))"
  shows "\<exists>pre r post. rs = pre @ r # post
           \<and> (\<forall>x \<in> set pre. ignored (rule_URL P force tls (Host x)))
           \<and> \<not> ignored (rule_URL P force tls (Host r))"
proof -
  from assms obtain pre r post where "rs = pre @ r # post"
    and "\<not> ignored (rule_URL P force tls (Host r))"
    and "\<forall>x \<in> set pre. \<not> \<not> ignored (rule_URL P force tls (Host x))"
    by (rule split_list_first_propE) blast
  then show ?thesis by auto
qed

text \<open>
  Claim C7. When the rule list of an object holds a rule that is accepted (its URL
  parses, has a non-empty host and the host does not begin with \<open>localhost:\<close>), the
  list splits at the first such rule, every rule before it being rejected. At such a
  split \<open>buildFQDN\<close> returns the rendering of the URL of that first accepted rule,
  and the result stays the same whatever rules follow it.
\<close>

theorem first_accepted_rule_wins:
  "((\<exists>x \<in> set (Rules (Spec ing)).
        \<not> ignored (rule_URL P force (tlsHosts_outer (TLS (Spec ing)) (\<lambda>_. False)) (Host x)))
     \<longrightarrow> (\<exists>pre r post. Rules (Spec ing) = pre @ r # post
          \<and> (\<forall>x \<in> set pre.
                ignored (rule_URL P force (tlsHosts_outer (TLS (Spec ing)) (\<lambda>_. False)) (Host x)))
          \<and> \<not> ignored (rule_URL P force (tlsHosts_outer (TLS (Spec ing)) (\<lambda>_. False)) (Host r))))
   \<and> (Rules (Spec ing) = pre @ r # post
       \<and> (\<forall>x \<in> set pre.
             ignored (rule_URL P force (tlsHosts_outer (TLS (Spec ing)) (\<lambda>_. False)) (Host x)))
       \<and> \<not> ignored (rule_URL P force (tlsHosts_outer (TLS (Spec ing)) (\<lambda>_. False)) (Host r))
     \<longrightarrow> buildFQDN P force ing =
           URL_String (the (rule_URL P force (tlsHosts_outer (TLS (Spec ing)) (\<lambda>_. False)) (Host r)))
         \<and> (\<forall>post'. buildFQDN P force (ing\<lparr>Spec := (Spec ing)\<lparr>Rules := pre @ r # post'\<rparr>\<rparr>)
               = buildFQDN P force ing))"
proof (intro conjI impI)
  assume "\<exists>x \<in> set (Rules (Spec ing)).
      \<not> ignored (rule_URL P force (tlsHosts_outer (TLS (Spec ing)) (\<lambda>_. False)) (Host x))"
  then show "\<exists>pre r post. Rules (Spec ing) = pre @ r # post
      \<and> (\<forall>x \<in> set pre.
            ignored (rule_URL P force (tlsHosts_outer (TLS (Spec ing)) (\<lambda>_. False)) (Host x)))
      \<and> \<not> ignored (rule_URL P force (tlsHosts_outer (TLS (Spec ing)) (\<lambda>_. False)) (Host r))"
    by (rule first_accepted_split)
next
  let ?tls = "tlsHosts_outer (TLS (Spec ing)) (\<lambda>_. False)"
  assume a: "Rules (Spec ing) = pre @ r # post
       \<and> (\<forall>x \<in> set pre. ignored (rule_URL P force ?tls (Host x)))
       \<and> \<not> ignored (rule_URL P force ?tls (Host r))"
  then have split: "Rules (Spec ing) = pre @ r # post"
    and pre: "\<forall>x \<in> set pre. ignored (rule_URL P force ?tls (Host x))"
    and r: "\<not> ignored (rule_URL P force ?tls (Host r))"
    by simp_all
  have res: "buildFQDN_rules P force ?tls (pre @ r # post') =
      URL_String (the (rule_URL P force ?tls (Host r)))" for post'
    using pre r by (rule buildFQDN_rules_first)
  show first: "buildFQDN P force ing = URL_String (the (rule_URL P force ?tls (Host r)))"
    unfolding buildFQDN_rules_eq split by (rule res)
  show "\<forall>post'. buildFQDN P force (ing\<lparr>Spec := (Spec ing)\<lparr>Rules := pre @ r # post'\<rparr>\<rparr>)
      = buildFQDN P force ing"
    unfolding first unfolding buildFQDN_with_rules res by simp
qed

theorem first_accepted_rule_wins_witness:
  "buildFQDN url_Parse_plain True
      \<lparr>k8s_Namespace = ''default'', k8s_Name = ''web'',
       Spec = \<lparr>TLS = [], Rules = [\<lparr>Host = ''localhost:8080''\<rparr>, \<lparr>Host = ''app.example.com''\<rparr>,
                                  \<lparr>Host = ''other.example.com''\<rparr>]\<rparr>\<rparr>
     = ''https://app.example.com''"
proof -
  let ?ing = "\<lparr>k8s_Namespace = ''default'', k8s_Name = ''web'',
       Spec = \<lparr>TLS = [], Rules = [\<lparr>Host = ''localhost:8080''\<rparr>, \<lparr>Host = ''app.example.com''\<rparr>,
                                  \<lparr>Host = ''other.example.com''\<rparr>]\<rparr>\<rparr>"
  have split: "Rules (Spec ?ing) =
      [\<lparr>Host = ''localhost:8080''\<rparr>] @ \<lparr>Host = ''app.example.com''\<rparr> # [\<lparr>Host = ''other.example.com''\<rparr>]"
    by simp
  have pre: "\<forall>x \<in> set [\<lparr>Host = ''localhost:8080''\<rparr>].
      ignored (rule_URL url_Parse_plain True (tlsHosts_outer (TLS (Spec ?ing)) (\<lambda>_. False)) (Host x))"
    by (simp add: rule_URL_def ignored_def plain_localhost_8080)
  have url: "rule_URL url_Parse_plain True (tlsHosts_outer (TLS (Spec ?ing)) (\<lambda>_. False))
        (Host \<lparr>Host = ''app.example.com''\<rparr>)
      = Some \<lparr>URL_Host = ''app.example.com'', URL_String = ''https://app.example.com''\<rparr>"
    by (simp add: rule_URL_def plain_https_app)
  then have acc: "\<not> ignored (rule_URL url_Parse_plain True
      (tlsHosts_outer (TLS (Spec ?ing)) (\<lambda>_. False)) (Host \<lparr>Host = ''app.example.com''\<rparr>))"
    by (simp add: ignored_def)
  from first_accepted_rule_wins
      [of ?ing url_Parse_plain True "[\<lparr>Host = ''localhost:8080''\<rparr>]"
          "\<lparr>Host = ''app.example.com''\<rparr>" "[\<lparr>Host = ''other.example.com''\<rparr>]"]
    split pre acc
  have "buildFQDN url_Parse_plain True ?ing =
      URL_String (the (rule_URL url_Parse_plain True (tlsHosts_outer (TLS (Spec ?ing)) (\<lambda>_. False))
        (Host \<lparr>Host = ''app.example.com''\<rparr>)))"
    by blast
  with url show ?thesis by simp
qed

text \<open>
  Claim C10, as amended. The loopback filter rejects only hosts that begin with
  \<open>localhost:\<close>. For an object whose only rule has the host \<open>localhost\<close>, which the
  library parses into a URL with host \<open>localhost\<close> and renders unchanged, the rule is
  accepted and a record is produced; its address is \<open>https://localhost\<close> when force-TLS
  is on or \<open>localhost\<close> is among the object's TLS hosts, and \<open>http://localhost\<close> when
  neither holds.
\<close>

theorem localhost_without_port_accepted:
  assumes "Rules (Spec ing) = [\<lparr>Host = ''localhost''\<rparr>]"
    and "P ''https://localhost'' = Some \<lparr>URL_Host = ''localhost'', URL_String = ''https://localhost''\<rparr>"
    and "P ''http://localhost'' = Some \<lparr>URL_Host = ''localhost'', URL_String = ''http://localhost''\<rparr>"
  shows "buildIngress P force ing =
      Inr \<lparr>Name = k8s_Name ing, Namespace = k8s_Namespace ing,
           FQDN = (if force \<or> (\<exists>t \<in> set (TLS (Spec ing)). ''localhost'' \<in> set (Hosts t))
                   then ''https://localhost'' else ''http://localhost'')\<rparr>"
  using assms
  by (simp add: buildIngress_def buildFQDN_def Let_def rule_URL_def ignored_def tlsHosts_fresh_iff)

lemma plain_localhost:
  "url_Parse_plain ''https://localhost'' = Some \<lparr>URL_Host = ''localhost'', URL_String = ''https://localhost''\<rparr>"
  "url_Parse_plain ''http://localhost'' = Some \<lparr>URL_Host = ''localhost'', URL_String = ''http://localhost''\<rparr>"
  by (simp_all add: plain_defs)

theorem localhost_without_port_accepted_witness:
  "buildIngress url_Parse_plain True
      \<lparr>k8s_Namespace = ''default'', k8s_Name = ''dev'',
       Spec = \<lparr>TLS = [], Rules = [\<lparr>Host = ''localhost''\<rparr>]\<rparr>\<rparr>
     = Inr \<lparr>Name = ''dev'', Namespace = ''default'', FQDN = ''https://localhost''\<rparr>
   \<and> buildIngress url_Parse_plain False
      \<lparr>k8s_Namespace = ''default'', k8s_Name = ''dev'',
       Spec = \<lparr>TLS = [], Rules = [\<lparr>Host = ''localhost''\<rparr>]\<rparr>\<rparr>
     = Inr \<lparr>Name = ''dev'', Namespace = ''default'', FQDN = ''http://localhost''\<rparr>"
  using localhost_without_port_accepted
      [of "\<lparr>k8s_Namespace = ''default'', k8s_Name = ''dev'',
            Spec = \<lparr>TLS = [], Rules = [\<lparr>Host = ''localhost''\<rparr>]\<rparr>\<rparr>" url_Parse_plain]
    plain_localhost
  by simp

text \<open>
  The claim as it was stated gives \<open>http://localhost\<close> whenever force-TLS is off. With
  force-TLS off and \<open>localhost\<close> listed under the object's TLS hosts the address is
  \<open>https://localhost\<close>.
\<close>

theorem localhost_tls_listed_counterexample:
  "buildIngress url_Parse_plain False
      \<lparr>k8s_Namespace = ''default'', k8s_Name = ''dev'',
       Spec = \<lparr>TLS = [\<lparr>Hosts = [''localhost'']\<rparr>], Rules = [\<lparr>Host = ''localhost''\<rparr>]\<rparr>\<rparr>
     = Inr \<lparr>Name = ''dev'', Namespace = ''default'', FQDN = ''https://localhost''\<rparr>
   \<and> buildIngress url_Parse_plain False
      \<lparr>k8s_Namespace = ''default'', k8s_Name = ''dev'',
       Spec = \<lparr>TLS = [\<lparr>Hosts = [''localhost'']\<rparr>], Rules = [\<lparr>Host = ''localhost''\<rparr>]\<rparr>\<rparr>
     \<noteq> Inr \<lparr>Name = ''dev'', Namespace = ''default'', FQDN = ''http://localhost''\<rparr>"
  by (simp add: buildIngress_def buildFQDN_def Let_def rule_URL_def ignored_def plain_localhost)

subsection \<open>The calls that the event handlers make\<close>

text \<open>
  A handler leaves the accumulator as it is or makes one call on it, and a record it
  upserts comes from \<open>buildIngress\<close>, so its address is not empty: the sequences of
  calls that the handlers make are among those the invariant of the reachable states
  is proved for.
\<close>

lemma AddFunc_call:
  "snd (AddFunc P force accum obj) = accum
   \<or> (\<exists>ing. FQDN ing \<noteq> [] \<and> snd (AddFunc P force accum obj) = apply_call accum (Upsert ing))"
proof (cases "buildIngress P force obj")
  case (Inl err)
  then show ?thesis by (simp add: AddFunc_def)
next
  case (Inr ing)
  then have "FQDN ing \<noteq> []"
    using buildIngress_address_nonempty by blast
  moreover from Inr have "snd (AddFunc P force accum obj) = apply_call accum (Upsert ing)"
    by (simp add: AddFunc_def split_def Let_def)
  ultimately show ?thesis by blast
qed

lemma UpdateFunc_call:
  "snd (UpdateFunc P force accum old cur) = accum
   \<or> (\<exists>ing. FQDN ing \<noteq> [] \<and> snd (UpdateFunc P force accum old cur) = apply_call accum (Upsert ing))"
proof (cases "buildIngress P force cur")
  case (Inl err)
  then show ?thesis by (simp add: UpdateFunc_def)
next
  case (Inr ing)
  then have "FQDN ing \<noteq> []"
    using buildIngress_address_nonempty by blast
  moreover from Inr have "snd (UpdateFunc P force accum old cur) = apply_call accum (Upsert ing)"
    by (simp add: UpdateFunc_def split_def Let_def)
  ultimately show ?thesis by blast
qed

lemma DeleteFunc_call:
  "snd (DeleteFunc P force accum obj) = accum
   \<or> (\<exists>ing. snd (DeleteFunc P force accum obj) = apply_call accum (Delete ing))"
proof (cases "buildIngress P force obj")
  case (Inl err)
  then show ?thesis by (simp add: DeleteFunc_def)
next
  case (Inr ing)
  then have "snd (DeleteFunc P force accum obj) = apply_call accum (Delete ing)"
    by (simp add: DeleteFunc_def split_def Let_def)
  then show ?thesis by blast
qed

section \<open>Properties of the published list\<close>

lemma mset_sort_Slice_insert: "mset (sort_Slice_insert lessFn x xs) = add_mset x (mset xs)"
  by (induction xs) simp_all

lemma mset_sort_Slice: "mset (sort_Slice lessFn xs) = mset xs"
  by (induction xs) (simp_all add: mset_sort_Slice_insert)

lemma set_sort_Slice_insert: "set (sort_Slice_insert lessFn x xs) = insert x (set xs)"
  by (induction xs) auto

lemma sorted_sort_Slice_insert:
  fixes k :: "'a \<Rightarrow> 'b::linorder"
  assumes "\<And>a b. lessFn a b \<longleftrightarrow> k a < k b"
    and "sorted_wrt (\<lambda>a b. k a \<le> k b) xs"
  shows "sorted_wrt (\<lambda>a b. k a \<le> k b) (sort_Slice_insert lessFn x xs)"
  using assms(2)
proof (induction xs)
  case Nil
  then show ?case by simp
next
  case (Cons y ys)
  show ?case
  proof (cases "lessFn y x")
    case True
    with assms(1) have "k y \<le> k x" by simp
    with Cons True show ?thesis
      by (auto simp: set_sort_Slice_insert)
  next
    case False
    with assms(1) have "k x \<le> k y" by (simp add: not_less)
    with Cons.prems False show ?thesis
      by (auto intro: order_trans)
  qed
qed

lemma sorted_sort_Slice:
  fixes k :: "'a \<Rightarrow> 'b::linorder"
  assumes "\<And>a b. lessFn a b \<longleftrightarrow> k a < k b"
  shows "sorted_wrt (\<lambda>a b. k a \<le> k b) (sort_Slice lessFn xs)"
  by (induction xs) (simp_all add: sorted_sort_Slice_insert [OF assms])

lemma le_append_same: "(p::'a::linorder list) @ x \<le> p @ y \<longleftrightarrow> x \<le> y"
  by (induction p) simp_all

lemma le_separated:
  fixes a b :: "'a::linorder list"
  assumes "\<forall>c \<in> set a. sep < c" and "\<forall>c \<in> set b. sep < c"
  shows "a @ sep # x \<le> b @ sep # y \<longleftrightarrow> a < b \<or> (a = b \<and> x \<le> y)"
  using assms
proof (induction a arbitrary: b)
  case Nil
  then show ?case by (cases b) auto
next
  case (Cons c a)
  show ?case
  proof (cases b)
    case Nil
    with Cons.prems show ?thesis by auto
  next
    case (Cons d b')
    with Cons.prems Cons.IH [of b'] show ?thesis by auto
  qed
qed

lemma isASCII_append: "isASCII (s @ t) \<longleftrightarrow> isASCII s \<and> isASCII t"
  by (simp add: isASCII_def)

lemma strings_ToLower_ASCII: "isASCII s \<Longrightarrow> strings_ToLower U s = map ToLower_char s"
  by (simp add: strings_ToLower_def)

lemma key_plain_record:
  assumes "plain_record r"
  shows "strings_ToLower U (ingress_String r) =
      ''ingress: namespace='' @ map ToLower_char (Namespace r) @ CHR '','' #
        ('' name='' @ map ToLower_char (Name r) @ CHR '','' # ('' fqdn='' @ map ToLower_char (FQDN r)))"
proof -
  from assms have "isASCII (ingress_String r)"
    by (simp add: plain_record_def ingress_String_def isASCII_append) (simp add: isASCII_def)
  then have "strings_ToLower U (ingress_String r) = map ToLower_char (ingress_String r)"
    by (rule strings_ToLower_ASCII)
  also have "\<dots> = ''ingress: namespace='' @ map ToLower_char (Namespace r) @ CHR '','' #
        ('' name='' @ map ToLower_char (Name r) @ CHR '','' # ('' fqdn='' @ map ToLower_char (FQDN r)))"
    by (simp add: ingress_String_def ToLower_char_def)
  finally show ?thesis .
qed

text \<open>
  On plain records the order of the compared texts is the order by namespace, then
  name, then address.
\<close>

lemma key_le_iff_composite:
  assumes a: "plain_record a" and b: "plain_record b"
  shows "strings_ToLower U (ingress_String a) \<le> strings_ToLower U (ingress_String b)
         \<longleftrightarrow> spec_composite_le U a b"
proof -
  from a b have ns: "\<forall>c \<in> set (map ToLower_char (Namespace a)). CHR '','' < c"
      "\<forall>c \<in> set (map ToLower_char (Namespace b)). CHR '','' < c"
    and nm: "\<forall>c \<in> set (map ToLower_char (Name a)). CHR '','' < c"
      "\<forall>c \<in> set (map ToLower_char (Name b)). CHR '','' < c"
    by (auto simp: plain_record_def list_all_iff)
  from a b have low: "strings_ToLower U (Namespace a) = map ToLower_char (Namespace a)"
      "strings_ToLower U (Namespace b) = map ToLower_char (Namespace b)"
      "strings_ToLower U (Name a) = map ToLower_char (Name a)"
      "strings_ToLower U (Name b) = map ToLower_char (Name b)"
      "strings_ToLower U (FQDN a) = map ToLower_char (FQDN a)"
      "strings_ToLower U (FQDN b) = map ToLower_char (FQDN b)"
    by (simp_all add: plain_record_def strings_ToLower_ASCII)
  show ?thesis
    unfolding key_plain_record [OF a] key_plain_record [OF b] spec_composite_le_def low
      le_append_same le_separated [OF ns] le_separated [OF nm]
    by simp
qed

lemma sortIngresses_sorted:
  "sorted_wrt (\<lambda>a b. strings_ToLower U (ingress_String a) \<le> strings_ToLower U (ingress_String b))
     (sort_Slice (sortIngresses_less U) xs)"
  by (rule sorted_sort_Slice) (simp add: sortIngresses_less_def)

lemma handler_receive_assign: "handler (receive_assign st cur) = heap st cur"
  by (simp add: handler_def receive_assign_def)

lemma heap_receive:
  "heap (receive U st cur) = (heap st)(cur := sort_Slice (sortIngresses_less U) (heap st cur))"
  by (simp add: receive_def receive_sort_def receive_assign_def sortIngresses_def)

lemma handler_receive:
  "handler (receive U st cur) = sort_Slice (sortIngresses_less U) (heap st cur)"
  by (simp add: handler_def receive_def receive_sort_def receive_assign_def sortIngresses_def)

text \<open>
  Once both statements of the branch have run, the handler renders the records of the
  received snapshot ordered by the compared text, and for plain records in the order
  by namespace, name and address.
\<close>

lemma handler_receive_sorted:
  "mset (handler (receive U st cur)) = mset (heap st cur)"
  "sorted_wrt (\<lambda>a b. strings_ToLower U (ingress_String a) \<le> strings_ToLower U (ingress_String b))
     (handler (receive U st cur))"
  unfolding handler_receive by (simp add: mset_sort_Slice) (rule sortIngresses_sorted)

lemma handler_receive_composite:
  assumes plain: "\<forall>r \<in> set (heap st cur). plain_record r"
  shows "sorted_wrt (spec_composite_le U) (handler (receive U st cur))"
proof (rule sorted_wrt_mono_rel [OF _ handler_receive_sorted(2)])
  fix a b
  have same: "set (handler (receive U st cur)) = set (heap st cur)"
    by (metis handler_receive_sorted(1) set_mset_mset)
  assume "a \<in> set (handler (receive U st cur))" and "b \<in> set (handler (receive U st cur))"
    and le: "strings_ToLower U (ingress_String a) \<le> strings_ToLower U (ingress_String b)"
  with plain same have "plain_record a" "plain_record b" by blast+
  from key_le_iff_composite [OF this] le show "spec_composite_le U a b" by simp
qed

text \<open>
  Claim C8. The claim is that every list the handler renders is ordered by namespace,
  name and address, and that the sort works on a copy for each request and never
  changes the shared snapshot. The code assigns the received slice to \<open>curIngresses\<close>
  before it sorts it, and sorts it in place. In the state between the two statements
  the handler renders the slice as it was sent: for every state and every received
  slice, what the handler hands to the template after the assignment is the unsorted
  contents of the slice, and the sort then replaces the contents at that same address.
  For the snapshot that holds \<open>web\<close> before \<open>api\<close> (both in namespace \<open>default\<close>) a
  request served between the two statements renders \<open>web\<close> before \<open>api\<close>, which is not
  the order by namespace, name and address; after the sort the same slice holds \<open>api\<close>
  before \<open>web\<close>.
\<close>

theorem handler_renders_unsorted_before_sort:
  "handler (receive_assign st cur) = heap st cur
   \<and> curIngresses (receive_sort U (receive_assign st cur)) = Some cur
   \<and> heap (receive_sort U (receive_assign st cur)) cur
       = sort_Slice (sortIngresses_less U) (heap st cur)
   \<and> handler (receive_assign
        \<lparr>heap = (\<lambda>_. [])(0 := [\<lparr>Name = ''web'', Namespace = ''default'', FQDN = ''https://app.example.com''\<rparr>,
                              \<lparr>Name = ''api'', Namespace = ''default'', FQDN = ''https://api.example.com''\<rparr>]),
         curIngresses = None\<rparr> 0)
       = [\<lparr>Name = ''web'', Namespace = ''default'', FQDN = ''https://app.example.com''\<rparr>,
          \<lparr>Name = ''api'', Namespace = ''default'', FQDN = ''https://api.example.com''\<rparr>]
   \<and> \<not> spec_composite_le U
          \<lparr>Name = ''web'', Namespace = ''default'', FQDN = ''https://app.example.com''\<rparr>
          \<lparr>Name = ''api'', Namespace = ''default'', FQDN = ''https://api.example.com''\<rparr>
   \<and> \<not> sorted_wrt (spec_composite_le U) (handler (receive_assign
        \<lparr>heap = (\<lambda>_. [])(0 := [\<lparr>Name = ''web'', Namespace = ''default'', FQDN = ''https://app.example.com''\<rparr>,
                              \<lparr>Name = ''api'', Namespace = ''default'', FQDN = ''https://api.example.com''\<rparr>]),
         curIngresses = None\<rparr> 0))
   \<and> heap (receive_sort U (receive_assign
        \<lparr>heap = (\<lambda>_. [])(0 := [\<lparr>Name = ''web'', Namespace = ''default'', FQDN = ''https://app.example.com''\<rparr>,
                              \<lparr>Name = ''api'', Namespace = ''default'', FQDN = ''https://api.example.com''\<rparr>]),
         curIngresses = None\<rparr> 0)) 0
       = [\<lparr>Name = ''api'', Namespace = ''default'', FQDN = ''https://api.example.com''\<rparr>,
          \<lparr>Name = ''web'', Namespace = ''default'', FQDN = ''https://app.example.com''\<rparr>]"
proof -
  let ?web = "\<lparr>Name = ''web'', Namespace = ''default'', FQDN = ''https://app.example.com''\<rparr>"
  let ?api = "\<lparr>Name = ''api'', Namespace = ''default'', FQDN = ''https://api.example.com''\<rparr>"
  let ?st = "\<lparr>heap = (\<lambda>_. [])(0 := [?web, ?api]), curIngresses = None\<rparr>"
  have ascii: "isASCII ''default''" "isASCII ''web''" "isASCII ''api''"
    "isASCII ''https://app.example.com''" "isASCII ''https://api.example.com''"
    by (simp_all add: isASCII_def)
  have assign: "handler (receive_assign st cur) = heap st cur" for st cur
    by (rule handler_receive_assign)
  have cur: "curIngresses (receive_sort U (receive_assign st cur)) = Some cur"
    by (simp add: receive_sort_def receive_assign_def)
  have sorted: "heap (receive_sort U (receive_assign st cur)) cur
       = sort_Slice (sortIngresses_less U) (heap st cur)" for st cur
    by (simp add: receive_sort_def receive_assign_def sortIngresses_def)
  have shown: "handler (receive_assign ?st 0) = [?web, ?api]"
    by (simp add: assign)
  have notle: "\<not> spec_composite_le U ?web ?api"
    by (simp add: spec_composite_le_def strings_ToLower_ASCII ascii) (simp add: ToLower_char_def)
  have unsorted: "\<not> sorted_wrt (spec_composite_le U) (handler (receive_assign ?st 0))"
    unfolding shown using notle by simp
  have key: "strings_ToLower U (ingress_String ?api) < strings_ToLower U (ingress_String ?web)"
    by (simp add: strings_ToLower_def ingress_String_def isASCII_def) (simp add: ToLower_char_def)
  have after: "heap (receive_sort U (receive_assign ?st 0)) 0 = [?api, ?web]"
    unfolding sorted using key by (simp add: sortIngresses_less_def)
  from assign cur sorted shown notle unsorted after show ?thesis by blast
qed

theorem handler_renders_unsorted_before_sort_witness:
  "handler (receive_assign
        \<lparr>heap = (\<lambda>_. [])(0 := [\<lparr>Name = ''web'', Namespace = ''default'', FQDN = ''https://app.example.com''\<rparr>,
                              \<lparr>Name = ''api'', Namespace = ''default'', FQDN = ''https://api.example.com''\<rparr>]),
         curIngresses = None\<rparr> 0)
       = [\<lparr>Name = ''web'', Namespace = ''default'', FQDN = ''https://app.example.com''\<rparr>,
          \<lparr>Name = ''api'', Namespace = ''default'', FQDN = ''https://api.example.com''\<rparr>]
   \<and> \<not> spec_composite_le (\<lambda>s. s)
          \<lparr>Name = ''web'', Namespace = ''default'', FQDN = ''https://app.example.com''\<rparr>
          \<lparr>Name = ''api'', Namespace = ''default'', FQDN = ''https://api.example.com''\<rparr>"
proof -
  note all = handler_renders_unsorted_before_sort [of _ _ "\<lambda>s. s"]
  from all [THEN conjunct2, THEN conjunct2, THEN conjunct2, THEN conjunct1]
    all [THEN conjunct2, THEN conjunct2, THEN conjunct2, THEN conjunct2, THEN conjunct1]
  show ?thesis by (rule conjI)
qed

section \<open>Properties of the start-up validation\<close>

lemma strings_Split_nonempty: "strings_Split s sep \<noteq> []"
  by (induction s) (auto split: list.splits)

text \<open>
  Claim C9. When neither the flag \<open>-namespaces\<close> nor the environment variable
  \<open>NAMESPACES\<close> names a namespace (both are the empty string), the validation at the
  start of \<open>main\<close> panics, which ends \<open>main\<close> before \<open>watchIngresses\<close> is called. When
  one of them is not empty the validation passes, with a non-empty list of namespaces
  to watch.
\<close>

theorem validation_panics_iff_unconfigured:
  "(flag_namespaces = [] \<and> env_NAMESPACES = [] \<longrightarrow>
      main_validation flag_namespaces env_NAMESPACES =
        Inl ''You need to specify -namespaces for namespaces to watch'')
   \<and> (flag_namespaces \<noteq> [] \<or> env_NAMESPACES \<noteq> [] \<longrightarrow>
      (\<exists>ns. main_validation flag_namespaces env_NAMESPACES = Inr ns \<and> ns \<noteq> []))"
proof (intro conjI impI)
  assume "flag_namespaces = [] \<and> env_NAMESPACES = []"
  then show "main_validation flag_namespaces env_NAMESPACES =
      Inl ''You need to specify -namespaces for namespaces to watch''"
    by (simp add: main_validation_def)
next
  assume "flag_namespaces \<noteq> [] \<or> env_NAMESPACES \<noteq> []"
  then have "(if flag_namespaces = [] then env_NAMESPACES else flag_namespaces) \<noteq> []"
    by auto
  moreover have "sort (strings_Split flag_namespaces CHR '','') \<noteq> []"
    using strings_Split_nonempty [of flag_namespaces "CHR '',''"]
    by (metis length_0_conv length_sort)
  ultimately show "\<exists>ns. main_validation flag_namespaces env_NAMESPACES = Inr ns \<and> ns \<noteq> []"
    using strings_Split_nonempty [of flag_namespaces "CHR '',''"]
    by (simp add: main_validation_def Let_def)
qed

theorem validation_panics_iff_unconfigured_witness:
  "main_validation [] [] = Inl ''You need to specify -namespaces for namespaces to watch''
   \<and> (\<exists>ns. main_validation ''prod,default'' [] = Inr ns \<and> ns \<noteq> [])"
  using validation_panics_iff_unconfigured [of "[]" "[]"]
    validation_panics_iff_unconfigured [of "''prod,default''" "[]"]
  by simp

text \<open>
  The list that passes the validation is always split from the value of the flag. When
  only \<open>NAMESPACES\<close> is set, the validation passes with the list of the one empty name.
\<close>

lemma validation_list_is_split_from_flag:
  assumes "env_NAMESPACES \<noteq> []"
  shows "main_validation [] env_NAMESPACES = Inr [[]]"
  using assms by (simp add: main_validation_def)

end
